theory Spec2Isabelle
  imports Main "HOL-Library.Sublist" "HOL-Library.Word"
begin

section \<open>Failures\<close>

text \<open>
  No function of \<^verbatim>\<open>main.go\<close> returns a Go \<^verbatim>\<open>error\<close> value. What can go wrong inside
  them is a run-time panic, which unwinds the program: indexing or slicing past the
  length of a slice, and dereferencing a nil pointer.

  The specification names error kinds of its own (section 7). They are kept apart in
  \<open>error_kind\<close>, so that a statement can say which of the two a call ends with. The
  functions below are translated from the source and therefore only ever build
  \<open>Panic\<close> failures.
\<close>

datatype panic = IndexOutOfRange | SliceBoundsOutOfRange | NilPointerDereference

datatype error_kind = InvalidArnFormat | MalformedResourcePath | ApiError | Cancelled

datatype failure = Panic panic | Failed error_kind

section \<open>The functions of Go's package \<^verbatim>\<open>strings\<close> that the program calls\<close>

text \<open>
  A Go string is a sequence of bytes, here a \<open>string\<close> (a list of \<open>char\<close>).
  \<^verbatim>\<open>strings.Index(s, substr)\<close> is the position of the first occurrence of \<open>substr\<close> in
  \<open>s\<close>, or \<open>-1\<close>; the model returns \<open>None\<close> for \<open>-1\<close>.
\<close>

definition strings_HasPrefix :: "string \<Rightarrow> string \<Rightarrow> bool" where
  "strings_HasPrefix s pre = (length pre \<le> length s \<and> take (length pre) s = pre)"

fun strings_Index :: "string \<Rightarrow> string \<Rightarrow> nat option" where
  "strings_Index [] substr = (if substr = [] then Some 0 else None)"
| "strings_Index (c # cs) substr =
     (if strings_HasPrefix (c # cs) substr then Some 0
      else map_option Suc (strings_Index cs substr))"

text \<open>
  \<^verbatim>\<open>strings.Split(s, sep)\<close> cuts \<open>s\<close> at every occurrence of \<open>sep\<close>, found from left to
  right, each search starting behind the previous occurrence. With an empty separator
  Go splits after every UTF-8 sequence; the model does so after every byte, which is the
  same on ASCII text. The program only ever passes \<^verbatim>\<open>":"\<close> and \<^verbatim>\<open>"/"\<close>.
\<close>

function strings_Split :: "string \<Rightarrow> string \<Rightarrow> string list" where
  "strings_Split s sep =
     (if sep = [] then map (\<lambda>c. [c]) s
      else case strings_Index s sep of
             None \<Rightarrow> [s]
           | Some m \<Rightarrow> take m s # strings_Split (drop (m + length sep) s) sep)"
  by pat_completeness auto
termination
proof (relation "measure (\<lambda>(s, sep). length s)")
  show "wf (measure (\<lambda>(s, sep). length s))"
    by simp
next
  fix s sep :: string and m :: nat
  assume sep: "sep \<noteq> []" and idx: "strings_Index s sep = Some m"
  from sep idx have "s \<noteq> []"
    by (cases s) auto
  with sep have "length s - (m + length sep) < length s"
    by (cases s; cases sep) auto
  then show "((drop (m + length sep) s, sep), (s, sep)) \<in> measure (\<lambda>(s, sep). length s)"
    by simp
qed

text \<open>
  \<^verbatim>\<open>strings.Replace(s, old, new, n)\<close> replaces the first \<open>n\<close> non-overlapping occurrences
  of \<open>old\<close>, all of them when \<open>n < 0\<close>. The text behind a replaced occurrence is searched
  on its own: the result is not searched again. With an empty \<open>old\<close> Go inserts \<open>new\<close> in
  front of the string and behind each UTF-8 sequence, up to \<open>n\<close> times (here: behind
  each byte).
\<close>

function strings_Replace :: "string \<Rightarrow> string \<Rightarrow> string \<Rightarrow> int \<Rightarrow> string" where
  "strings_Replace s old new n =
     (if old = new \<or> n = 0 then s
      else if old = [] then
        (let k = (if n < 0 \<or> int (length s) + 1 < n then length s + 1 else nat n)
         in new @ concat (map (\<lambda>c. c # new) (take (k - 1) s)) @ drop (k - 1) s)
      else case strings_Index s old of
             None \<Rightarrow> s
           | Some j \<Rightarrow> take j s @ new @ strings_Replace (drop (j + length old) s) old new (n - 1))"
  by pat_completeness auto
termination
proof (relation "measure (\<lambda>(s, old, new, n). length s)")
  show "wf (measure (\<lambda>(s, old, new, n). length s))"
    by simp
next
  fix s old new :: string and n :: int and j :: nat
  assume old: "old \<noteq> []" and idx: "strings_Index s old = Some j"
  from old idx have "s \<noteq> []"
    by (cases s) auto
  with old have "length s - (j + length old) < length s"
    by (cases s; cases old) auto
  then show "((drop (j + length old) s, old, new, n - 1), (s, old, new, n))
      \<in> measure (\<lambda>(s, old, new, n). length s)"
    by simp
qed

fun strings_Join :: "string list \<Rightarrow> string \<Rightarrow> string" where
  "strings_Join [] sep = []"
| "strings_Join [e] sep = e"
| "strings_Join (e # es) sep = e @ sep @ strings_Join es sep"

section \<open>The resource record\<close>

text \<open>
  Every field of \<^verbatim>\<open>SingleResource\<close> is a \<^verbatim>\<open>*string\<close>; a field left out of a struct
  literal is nil, here \<open>None\<close>. The pointers that the program stores in a record point to
  variables that are written once (the \<^verbatim>\<open>rgn\<close> of one round of the loop, the local
  \<^verbatim>\<open>shortArn\<close>, the elements of a slice that \<^verbatim>\<open>strings.Split\<close> returned), so a field is
  modelled by the string it points to.
\<close>

record SingleResource =
  Region :: "string option"
  Service :: "string option"
  Product :: "string option"
  Details :: "string option"
  ID :: "string option"
  ARN :: "string option"

section \<open>Decomposing an ARN\<close>

text \<open>
  The functions take \<^verbatim>\<open>*string\<close> arguments and dereference them at once. Every caller
  in the program passes the address of a live variable, so the model passes the string;
  the one pointer that comes from outside, \<^verbatim>\<open>resource.ResourceARN\<close>, is checked where
  \<^verbatim>\<open>main\<close> hands it over.
\<close>

definition ServiceNameFromARN :: "string \<Rightarrow> failure + string" where
  "ServiceNameFromARN arn =
     (let shortArn = strings_Replace arn ''arn:aws:'' '''' (- 1);
          sliced = strings_Split shortArn '':''
      in case sliced of
           [] \<Rightarrow> Inl (Panic IndexOutOfRange)
         | x # _ \<Rightarrow> Inr x)"

definition ShortArn :: "string \<Rightarrow> failure + string" where
  "ShortArn arn =
     (let slicedArn = strings_Split arn '':''
      in if length slicedArn < 5 then Inl (Panic SliceBoundsOutOfRange)
         else Inr (strings_Join (drop 5 slicedArn) ''/''))"

section \<open>The three strategies and their dispatch\<close>

definition awsGeneric_ConverToResource :: "string \<Rightarrow> string \<Rightarrow> string \<Rightarrow> SingleResource" where
  "awsGeneric_ConverToResource shortArn svc rgn =
     \<lparr>Region = Some rgn, Service = Some svc, Product = None, Details = None,
      ID = Some shortArn, ARN = Some shortArn\<rparr>"

definition awsEC2_ConvertToResource :: "string \<Rightarrow> string \<Rightarrow> string \<Rightarrow> failure + SingleResource" where
  "awsEC2_ConvertToResource shortArn svc rgn =
     (case strings_Split shortArn ''/'' of
        s0 # s1 # _ \<Rightarrow>
          Inr \<lparr>Region = Some rgn, Service = Some svc, Product = Some s0, Details = None,
               ID = Some s1, ARN = Some shortArn\<rparr>
      | _ \<Rightarrow> Inl (Panic IndexOutOfRange))"

definition awsECS_ConvertToResource :: "string \<Rightarrow> string \<Rightarrow> string \<Rightarrow> failure + SingleResource" where
  "awsECS_ConvertToResource shortArn svc rgn =
     (case strings_Split shortArn ''/'' of
        s0 # s1 # _ \<Rightarrow>
          Inr \<lparr>Region = Some rgn, Service = Some svc, Product = Some s0, Details = None,
               ID = Some s1, ARN = Some shortArn\<rparr>
      | _ \<Rightarrow> Inl (Panic IndexOutOfRange))"

definition ConvertArnToSingleResource :: "string \<Rightarrow> string \<Rightarrow> string \<Rightarrow> failure + SingleResource" where
  "ConvertArnToSingleResource arn svc rgn =
     (case ShortArn arn of
        Inl e \<Rightarrow> Inl e
      | Inr shortArn \<Rightarrow>
          if svc = ''ec2'' then awsEC2_ConvertToResource shortArn svc rgn
          else if svc = ''ecs'' then awsECS_ConvertToResource shortArn svc rgn
          else Inr (awsGeneric_ConverToResource shortArn svc rgn))"

section \<open>Printing\<close>

definition DerefNilPointerStrings :: "string option \<Rightarrow> string" where
  "DerefNilPointerStrings s = (case s of None \<Rightarrow> '''' | Some v \<Rightarrow> v)"

text \<open>
  \<^verbatim>\<open>PrettyPrintResources\<close> builds one row of four cells per resource, appending row after
  row, and hands header, border flag and rows to the table writer. Drawing the table is
  the work of the library \<^verbatim>\<open>tablewriter\<close>; the model stops at what it is given.
\<close>

record Table =
  header :: "string list"
  border :: bool
  rows :: "string list list"

definition PrettyPrintResources_row :: "SingleResource \<Rightarrow> string list" where
  "PrettyPrintResources_row r =
     [DerefNilPointerStrings (Region r), DerefNilPointerStrings (Service r),
      DerefNilPointerStrings (Product r), DerefNilPointerStrings (ID r)]"

definition PrettyPrintResources :: "SingleResource list \<Rightarrow> Table" where
  "PrettyPrintResources resources =
     (let data = foldl (\<lambda>data r. data @ [PrettyPrintResources_row r]) [] resources
      in \<lparr>header = [''Region'', ''Service'', ''Product'', ''ID''], border = True, rows = data\<rparr>)"

section \<open>The pagination loop of \<^verbatim>\<open>main\<close>\<close>

text \<open>
  The tagging API is outside the program. A client is a step function on a state of its
  own: given the request it answers with an output pointer and an error, both of which
  may be nil, and moves to its next state. Of a request the program sets the page size
  (an \<^verbatim>\<open>*int32\<close>) and, from the second round on, the token; of an answer it reads the
  resource list and the token (a \<^verbatim>\<open>*string\<close>, nil allowed), and of a resource the ARN
  (a \<^verbatim>\<open>*string\<close> as well).
\<close>

record GetResourcesInput =
  ResourcesPerPage :: "32 word option"
  PaginationToken_in :: "string option"

record ResourceTagMapping =
  ResourceARN :: "string option"

record GetResourcesOutput =
  ResourceTagMappingList :: "ResourceTagMapping list"
  PaginationToken_out :: "string option"

type_synonym 'c GetResources =
  "'c \<Rightarrow> GetResourcesInput \<Rightarrow> (GetResourcesOutput option \<times> string option) \<times> 'c"

text \<open>
  The variables of \<^verbatim>\<open>main\<close> that live across rounds, with the state of the client, the
  list of the requests sent so far and the lines printed so far.
\<close>

record 'c main_state =
  client :: 'c
  paginationToken :: string
  resources :: "SingleResource list"
  requests :: "GetResourcesInput list"
  printed :: "string list"

text \<open>
  One call \<^verbatim>\<open>out, err = r.GetResources(ctx, in)\<close> with the \<^verbatim>\<open>if err != nil\<close> that
  follows it: the error is printed and the program goes on.
\<close>

definition call_GetResources ::
  "'c GetResources \<Rightarrow> GetResourcesInput \<Rightarrow> 'c main_state \<Rightarrow> GetResourcesOutput option \<times> 'c main_state" where
  "call_GetResources r inp st =
     (case r (client st) inp of
        ((out, err), c) \<Rightarrow>
          (out, st\<lparr>client := c, requests := requests st @ [inp],
                  printed := printed st @ (case err of None \<Rightarrow> [] | Some e \<Rightarrow> [e])\<rparr>))"

text \<open>The inner loop over \<^verbatim>\<open>out.ResourceTagMappingList\<close>; a panic ends the program.\<close>

fun convert_resources ::
  "string \<Rightarrow> ResourceTagMapping list \<Rightarrow> SingleResource list \<Rightarrow> failure + SingleResource list" where
  "convert_resources region [] collected = Inr collected"
| "convert_resources region (resource # rest) collected =
     (case ResourceARN resource of
        None \<Rightarrow> Inl (Panic NilPointerDereference)
      | Some arn \<Rightarrow>
          (case ServiceNameFromARN arn of
             Inl e \<Rightarrow> Inl e
           | Inr svc \<Rightarrow>
               (case ConvertArnToSingleResource arn svc region of
                  Inl e \<Rightarrow> Inl e
                | Inr res \<Rightarrow> convert_resources region rest (collected @ [res]))))"

text \<open>
  The \<^verbatim>\<open>for\<close> loop has no bound of its own: it ends when an answer carries the empty
  token. The model counts rounds down from \<open>fuel\<close>; \<open>None\<close> says the rounds were used up
  before the loop ended.
\<close>

fun main_loop ::
  "nat \<Rightarrow> 'c GetResources \<Rightarrow> string \<Rightarrow> 'c main_state \<Rightarrow> (failure + 'c main_state) option" where
  "main_loop 0 r region st = None"
| "main_loop (Suc fuel) r region st =
     (let st1 = (if length (paginationToken st) = 0
                 then snd (call_GetResources r
                        \<lparr>ResourcesPerPage = Some 50, PaginationToken_in = None\<rparr> st)
                 else st);
          inp = (if length (paginationToken st) = 0
                 then \<lparr>ResourcesPerPage = Some 50, PaginationToken_in = None\<rparr>
                 else \<lparr>ResourcesPerPage = Some 50,
                       PaginationToken_in = Some (paginationToken st)\<rparr>)
      in case call_GetResources r inp st1 of
           (None, st2) \<Rightarrow> Some (Inl (Panic NilPointerDereference))
         | (Some out, st2) \<Rightarrow>
             (case convert_resources region (ResourceTagMappingList out) (resources st2) of
                Inl e \<Rightarrow> Some (Inl e)
              | Inr rs \<Rightarrow>
                  (case PaginationToken_out out of
                     None \<Rightarrow> Some (Inl (Panic NilPointerDereference))
                   | Some tok \<Rightarrow>
                       if tok = '''' then Some (Inr (st2\<lparr>resources := rs, paginationToken := tok\<rparr>))
                       else main_loop fuel r region
                              (st2\<lparr>resources := rs, paginationToken := tok\<rparr>))))"

text \<open>
  \<^verbatim>\<open>main\<close>: the region is \<^verbatim>\<open>os.Args[1]\<close>; the loop starts with the empty token and no
  resources; the table is printed once the loop has ended.
\<close>

definition main ::
  "nat \<Rightarrow> string list \<Rightarrow> 'c GetResources \<Rightarrow> 'c \<Rightarrow> (failure + 'c main_state \<times> Table) option" where
  "main fuel args r c =
     (if length args < 2 then Some (Inl (Panic IndexOutOfRange))
      else case main_loop fuel r (args ! 1)
                  \<lparr>client = c, paginationToken = '''', resources = [], requests = [],
                   printed = []\<rparr> of
             None \<Rightarrow> None
           | Some (Inl e) \<Rightarrow> Some (Inl e)
           | Some (Inr st) \<Rightarrow> Some (Inr (st, PrettyPrintResources (resources st))))"

section \<open>Two providers of three pages\<close>

text \<open>
  Three pages whose answers carry the tokens \<^verbatim>\<open>"t1"\<close>, \<^verbatim>\<open>"t2"\<close> and \<^verbatim>\<open>""\<close>. The first
  provider is stateless and looks the page up by the token of the request, as the
  tagging API does. The second hands out its pages one per request, whatever the request
  says.
\<close>

definition page1 :: GetResourcesOutput where
  "page1 = \<lparr>ResourceTagMappingList =
              [\<lparr>ResourceARN = Some ''arn:aws:ec2:eu-west-1:111122223333:instance/i-0123abcd''\<rparr>,
               \<lparr>ResourceARN = Some ''arn:aws:s3:::my-bucket''\<rparr>],
            PaginationToken_out = Some ''t1''\<rparr>"

definition page2 :: GetResourcesOutput where
  "page2 = \<lparr>ResourceTagMappingList =
              [\<lparr>ResourceARN = Some ''arn:aws:ecs:eu-west-1:111122223333:cluster/prod''\<rparr>],
            PaginationToken_out = Some ''t2''\<rparr>"

definition page3 :: GetResourcesOutput where
  "page3 = \<lparr>ResourceTagMappingList =
              [\<lparr>ResourceARN = Some ''arn:aws:sns:eu-west-1:111122223333:alerts''\<rparr>],
            PaginationToken_out = Some ''''\<rparr>"

definition provider_by_token :: "unit GetResources" where
  "provider_by_token c inp =
     (case PaginationToken_in inp of
        None \<Rightarrow> ((Some page1, None), c)
      | Some t \<Rightarrow>
          if t = ''t1'' then ((Some page2, None), c)
          else if t = ''t2'' then ((Some page3, None), c)
          else ((None, Some ''InvalidParameterException''), c))"

definition provider_in_sequence :: "GetResourcesOutput list GetResources" where
  "provider_in_sequence ps inp =
     (case ps of
        [] \<Rightarrow> ((None, Some ''no page left''), [])
      | p # ps' \<Rightarrow> ((Some p, None), ps'))"

section \<open>Facts about the string functions\<close>

text \<open>
  The equations of \<open>strings_Split\<close> and \<open>strings_Replace\<close> call themselves on their
  right-hand sides; they are unfolded on request only.
\<close>

declare strings_Split.simps [simp del] strings_Replace.simps [simp del]

lemma HasPrefix_iff_prefix: "strings_HasPrefix s p \<longleftrightarrow> prefix p s"
proof
  assume "strings_HasPrefix s p"
  then have "s = p @ drop (length p) s"
    by (metis append_take_drop_id strings_HasPrefix_def)
  then show "prefix p s"
    by (metis prefixI)
next
  assume "prefix p s"
  then show "strings_HasPrefix s p"
    by (auto simp: strings_HasPrefix_def prefix_def)
qed

lemma Index_None_iff: "strings_Index s sub = None \<longleftrightarrow> \<not> sublist sub s"
  by (induction s) (auto simp: HasPrefix_iff_prefix sublist_Cons_right)

lemma Index_Some_prefix:
  "strings_Index s sub = Some i \<Longrightarrow> prefix sub (drop i s)"
  by (induction s arbitrary: i) (auto simp: HasPrefix_iff_prefix split: if_splits)

lemma Index_Some_least:
  "strings_Index s sub = Some i \<Longrightarrow> j < i \<Longrightarrow> \<not> prefix sub (drop j s)"
proof (induction s arbitrary: i j)
  case Nil
  then show ?case by (auto split: if_splits)
next
  case (Cons c cs)
  then show ?case
    by (cases j) (auto simp: HasPrefix_iff_prefix split: if_splits)
qed

lemma Index_single:
  "strings_Index s [c] = (if c \<in> set s then Some (length (takeWhile (\<lambda>x. x \<noteq> c) s)) else None)"
  by (induction s) (auto simp: strings_HasPrefix_def)

lemma takeWhile_neq_append: "c \<notin> set a \<Longrightarrow> takeWhile (\<lambda>x. x \<noteq> c) (a @ c # x) = a"
  by (induction a) auto

lemma dropWhile_neq_append: "c \<notin> set a \<Longrightarrow> dropWhile (\<lambda>x. x \<noteq> c) (a @ c # x) = c # x"
  by (induction a) auto

lemma takeWhile_neq_id: "c \<notin> set s \<Longrightarrow> takeWhile (\<lambda>x. x \<noteq> c) s = s"
  by (induction s) auto

lemma Split_single_unfold:
  "strings_Split s [c] =
     (if c \<in> set s
      then takeWhile (\<lambda>x. x \<noteq> c) s # strings_Split (tl (dropWhile (\<lambda>x. x \<noteq> c) s)) [c]
      else [s])"
proof -
  have t: "take (length (takeWhile (\<lambda>x. x \<noteq> c) s)) s = takeWhile (\<lambda>x. x \<noteq> c) s"
    by (rule takeWhile_eq_take [symmetric])
  have d: "drop (Suc (length (takeWhile (\<lambda>x. x \<noteq> c) s))) s = tl (dropWhile (\<lambda>x. x \<noteq> c) s)"
    by (simp add: dropWhile_eq_drop drop_Suc tl_drop)
  show ?thesis
    by (subst strings_Split.simps) (simp add: Index_single t d)
qed

lemma Split_single_notin: "c \<notin> set s \<Longrightarrow> strings_Split s [c] = [s]"
  by (simp add: Split_single_unfold)

lemma Split_single_append:
  "c \<notin> set a \<Longrightarrow> strings_Split (a @ c # x) [c] = a # strings_Split x [c]"
  by (subst Split_single_unfold) (simp add: takeWhile_neq_append dropWhile_neq_append)

lemma Split_not_Nil: "sep \<noteq> [] \<Longrightarrow> strings_Split s sep \<noteq> []"
  by (subst strings_Split.simps) (simp split: option.split)

lemma Split_single_hd:
  "hd (strings_Split s [c]) = takeWhile (\<lambda>x. x \<noteq> c) s"
  by (subst Split_single_unfold) (simp add: takeWhile_neq_id)

lemma Join_Split: "sep \<noteq> [] \<Longrightarrow> strings_Join (strings_Split s sep) sep = s"
proof (induction s sep rule: strings_Split.induct)
  case (1 s sep)
  show ?case
  proof (cases "strings_Index s sep")
    case None
    with "1.prems" show ?thesis
      by (subst strings_Split.simps) simp
  next
    case (Some m)
    have pre: "prefix sep (drop m s)"
      using Some by (rule Index_Some_prefix)
    then have s: "s = take m s @ sep @ drop (m + length sep) s"
      by (metis add.commute append_take_drop_id drop_drop prefix_def append_eq_conv_conj)
    obtain x xs where xs: "strings_Split (drop (m + length sep) s) sep = x # xs"
      using Split_not_Nil [OF "1.prems"] by (meson list.exhaust)
    have "strings_Join (strings_Split s sep) sep =
        take m s @ sep @ strings_Join (strings_Split (drop (m + length sep) s) sep) sep"
      using "1.prems" Some xs by (subst strings_Split.simps) simp
    also have "\<dots> = take m s @ sep @ drop (m + length sep) s"
      using "1.IH" [OF "1.prems" Some "1.prems"] by simp
    finally show ?thesis
      using s by simp
  qed
qed

lemma Split_single_set: "x \<in> set (strings_Split s [c]) \<Longrightarrow> c \<notin> set x"
proof (induction s "[c]" arbitrary: x rule: strings_Split.induct)
  case (1 s)
  show ?case
  proof (cases "c \<in> set s")
    case False
    with "1.prems" show ?thesis
      by (simp add: Split_single_notin)
  next
    case True
    let ?m = "length (takeWhile (\<lambda>x. x \<noteq> c) s)"
    have idx: "strings_Index s [c] = Some ?m"
      using True by (simp add: Index_single)
    have d: "drop (?m + length [c]) s = tl (dropWhile (\<lambda>x. x \<noteq> c) s)"
      by (simp add: dropWhile_eq_drop drop_Suc tl_drop)
    from "1.prems" True
    have "x = takeWhile (\<lambda>x. x \<noteq> c) s \<or> x \<in> set (strings_Split (drop (?m + length [c]) s) [c])"
      unfolding d by (subst (asm) Split_single_unfold) auto
    then show ?thesis
    proof
      assume "x = takeWhile (\<lambda>x. x \<noteq> c) s"
      then show ?thesis
        by (auto dest: set_takeWhileD)
    next
      assume "x \<in> set (strings_Split (drop (?m + length [c]) s) [c])"
      then show ?thesis
        using "1.hyps" [OF _ idx] by simp
    qed
  qed
qed


lemma split_unique:
  assumes "c \<notin> set a" and "c \<notin> set b" and "a @ c # x = b @ c # y"
  shows "a = b \<and> x = y"
proof -
  have "takeWhile (\<lambda>x. x \<noteq> c) (a @ c # x) = takeWhile (\<lambda>x. x \<noteq> c) (b @ c # y)"
    using assms(3) by simp
  then have "a = b"
    using assms(1,2) by (simp add: takeWhile_neq_append)
  with assms(3) show ?thesis
    by simp
qed

lemma Replace_absent:
  assumes "\<not> sublist old s"
  shows "strings_Replace s old new n = s"
proof -
  from assms have "old \<noteq> []"
    by auto
  moreover from assms have "strings_Index s old = None"
    by (simp add: Index_None_iff)
  ultimately show ?thesis
    by (subst strings_Replace.simps) simp
qed

lemma Index_prefix: "prefix sub s \<Longrightarrow> strings_Index s sub = Some 0"
  by (cases s) (auto simp: HasPrefix_iff_prefix)

lemma Index_at_front: "strings_Index (old @ t) old = Some 0"
  by (rule Index_prefix) simp

lemma Replace_at_front:
  "old \<noteq> [] \<Longrightarrow> old \<noteq> new \<Longrightarrow> n < 0 \<Longrightarrow>
   strings_Replace (old @ t) old new n = new @ strings_Replace t old new (n - 1)"
  by (subst strings_Replace.simps) (simp add: Index_at_front)

lemma Replace_keeps_service:
  assumes svc: "CHR '':'' \<notin> set svc" and region: "CHR '':'' \<notin> set region"
    and odd: "\<not> (suffix ''arn'' svc \<and> region = ''aws'')" and n: "n < 0"
  shows "\<exists>x. strings_Replace (svc @ CHR '':'' # region @ CHR '':'' # rest) ''arn:aws:'' '''' n
           = svc @ CHR '':'' # x"
proof (cases "strings_Index (svc @ CHR '':'' # region @ CHR '':'' # rest) ''arn:aws:''")
  case None
  then show ?thesis
    using n by (subst strings_Replace.simps) simp
next
  case (Some j)
  let ?t = "svc @ CHR '':'' # region @ CHR '':'' # rest"
  have pre: "prefix ''arn:aws:'' (drop j ?t)"
    using Some by (rule Index_Some_prefix)
  have j: "length svc < j"
  proof (rule ccontr)
    assume "\<not> length svc < j"
    then have le: "j \<le> length svc"
      by simp
    then have "drop j ?t = drop j svc @ CHR '':'' # region @ CHR '':'' # rest"
      by simp
    with pre obtain z where
      z: "drop j svc @ CHR '':'' # region @ CHR '':'' # rest = ''arn'' @ CHR '':'' # ''aws'' @ CHR '':'' # z"
      by (auto simp: prefix_def)
    have d: "CHR '':'' \<notin> set (drop j svc)"
      using svc by (auto dest: in_set_dropD)
    have 1: "drop j svc = ''arn'' \<and> region @ CHR '':'' # rest = ''aws'' @ CHR '':'' # z"
      by (rule split_unique [OF d _ z]) simp
    then have 2: "region = ''aws''"
      using split_unique [OF region, of "''aws''" rest z] by simp
    have "suffix ''arn'' svc"
      using 1 by (metis suffix_drop)
    with 2 odd show False
      by simp
  qed
  then have "take j ?t = svc @ CHR '':'' # take (j - Suc (length svc)) (region @ CHR '':'' # rest)"
    by (simp add: take_Cons')
  then show ?thesis
    using n Some by (subst strings_Replace.simps) simp
qed

lemma ServiceNameFromARN_of_prefixed:
  assumes "CHR '':'' \<notin> set svc" and "CHR '':'' \<notin> set region"
    and "\<not> (suffix ''arn'' svc \<and> region = ''aws'')"
  shows "ServiceNameFromARN (''arn:aws:'' @ svc @ CHR '':'' # region @ CHR '':'' # rest) = Inr svc"
proof -
  have neg: "(- 2 :: int) < 0"
    by simp
  obtain x where
    x: "strings_Replace (svc @ CHR '':'' # region @ CHR '':'' # rest) ''arn:aws:'' '''' (- 2)
          = svc @ CHR '':'' # x"
    using Replace_keeps_service [OF assms neg, of rest] by auto
  have "strings_Replace (''arn:aws:'' @ svc @ CHR '':'' # region @ CHR '':'' # rest) ''arn:aws:'' '''' (- 1)
      = svc @ CHR '':'' # x"
    using Replace_at_front [of "''arn:aws:''" "''''" "- 1" "svc @ CHR '':'' # region @ CHR '':'' # rest"] x
    by simp
  then show ?thesis
    using assms(1) by (simp add: ServiceNameFromARN_def Split_single_append del: append.simps)
qed

lemma ServiceNameFromARN_total: "\<exists>svc. ServiceNameFromARN arn = Inr svc"
  using Split_not_Nil [of "'':''" "strings_Replace arn ''arn:aws:'' '''' (- 1)"]
  by (auto simp: ServiceNameFromARN_def split: list.split)

text \<open>
  Deleting every occurrence, said without the functions above: when the input is made
  of pieces with \<open>old\<close> between them, and the search from the left finds \<open>old\<close> exactly at
  the joints (no occurrence starts inside a piece, and none lies in the last piece), then
  the result is the pieces with \<open>new\<close> between them.
\<close>

lemma Index_first_occurrence:
  assumes "old \<noteq> []" and "\<not> sublist old (u @ butlast old)"
  shows "strings_Index (u @ old @ rest) old = Some (length u)"
  using assms(2)
proof (induction u)
  case Nil
  show ?case
    by (simp add: Index_at_front)
next
  case (Cons c cs)
  have whole: "(c # cs) @ old @ rest = ((c # cs) @ butlast old) @ last old # rest"
    using assms(1) by simp
  have "\<not> prefix old ((c # cs) @ old @ rest)"
  proof
    assume "prefix old ((c # cs) @ old @ rest)"
    moreover have "prefix ((c # cs) @ butlast old) ((c # cs) @ old @ rest)"
      unfolding whole by (rule prefixI) simp
    moreover have "length old \<le> length ((c # cs) @ butlast old)"
      using assms(1) by simp
    ultimately have "prefix old ((c # cs) @ butlast old)"
      by (rule prefix_length_prefix)
    with Cons.prems show False
      by auto
  qed
  moreover from Cons.prems have "\<not> sublist old (cs @ butlast old)"
    by (auto simp: sublist_Cons_right)
  ultimately show ?case
    using Cons.IH by (simp add: HasPrefix_iff_prefix)
qed

lemma Replace_Join:
  assumes old: "old \<noteq> []" "old \<noteq> new"
  shows "n < 0 \<Longrightarrow> pieces \<noteq> [] \<Longrightarrow>
    \<forall>u\<in>set (butlast pieces). \<not> sublist old (u @ butlast old) \<Longrightarrow>
    \<not> sublist old (last pieces) \<Longrightarrow>
    strings_Replace (strings_Join pieces old) old new n = strings_Join pieces new"
proof (induction pieces arbitrary: n)
  case Nil
  then show ?case by simp
next
  case (Cons e es)
  show ?case
  proof (cases es)
    case Nil
    with Cons.prems show ?thesis
      by (simp add: Replace_absent)
  next
    case (Cons v va)
    let ?rest = "strings_Join es old"
    from Cons.prems Cons have e: "\<not> sublist old (e @ butlast old)"
      by simp
    have idx: "strings_Index (e @ old @ ?rest) old = Some (length e)"
      using old(1) e by (rule Index_first_occurrence)
    have "strings_Replace (e @ old @ ?rest) old new n =
        e @ new @ strings_Replace ?rest old new (n - 1)"
      using old Cons.prems(1) idx by (subst strings_Replace.simps) simp
    moreover have "strings_Replace ?rest old new (n - 1) = strings_Join es new"
      using Cons.prems Cons by (intro Cons.IH) auto
    ultimately show ?thesis
      using Cons by simp
  qed
qed

lemma Join_empty_separator: "sep = [] \<Longrightarrow> strings_Join pieces sep = concat pieces"
  by (induction pieces sep rule: strings_Join.induct) simp_all

text \<open>
  For every input, deleting all occurrences of \<open>old\<close> gives the pieces that splitting at
  \<open>old\<close> gives, put together.
\<close>

lemma Replace_concat_Split:
  "old \<noteq> [] \<Longrightarrow> n < 0 \<Longrightarrow> strings_Replace s old [] n = concat (strings_Split s old)"
proof (induction s old arbitrary: n rule: strings_Split.induct)
  case (1 s sep)
  show ?case
  proof (cases "strings_Index s sep")
    case None
    with "1.prems" show ?thesis
      by (subst strings_Replace.simps, subst strings_Split.simps) simp
  next
    case (Some m)
    have "strings_Replace (drop (m + length sep) s) sep [] (n - 1) =
        concat (strings_Split (drop (m + length sep) s) sep)"
      using "1.prems" by (intro "1.IH" [OF _ Some]) simp_all
    with "1.prems" Some show ?thesis
      by (subst strings_Replace.simps, subst strings_Split.simps) simp
  qed
qed

section \<open>Facts about the strategies and the loop\<close>

lemma Convert_populated:
  "ConvertArnToSingleResource arn svc rgn = Inr x \<Longrightarrow> Region x = Some rgn \<and> Service x = Some svc"
  by (auto simp: ConvertArnToSingleResource_def awsEC2_ConvertToResource_def
      awsECS_ConvertToResource_def awsGeneric_ConverToResource_def
      split: sum.splits if_splits list.splits)

lemma convert_resources_spec:
  "convert_resources region rs collected = Inr out \<Longrightarrow>
   \<exists>new. out = collected @ new \<and> length new = length rs \<and>
     (\<forall>i<length rs. \<exists>arn svc. ResourceARN (rs ! i) = Some arn \<and> ServiceNameFromARN arn = Inr svc \<and>
        ConvertArnToSingleResource arn svc region = Inr (new ! i))"
proof (induction rs arbitrary: collected)
  case Nil
  then show ?case by simp
next
  case (Cons resource rest)
  from Cons.prems obtain arn svc res where
    arn: "ResourceARN resource = Some arn" and svc: "ServiceNameFromARN arn = Inr svc" and
    res: "ConvertArnToSingleResource arn svc region = Inr res" and
    rest: "convert_resources region rest (collected @ [res]) = Inr out"
    by (auto split: option.splits sum.splits)
  from Cons.IH [OF rest] obtain new where
    new: "out = (collected @ [res]) @ new" "length new = length rest"
      "\<forall>i<length rest. \<exists>arn svc. ResourceARN (rest ! i) = Some arn \<and> ServiceNameFromARN arn = Inr svc \<and>
        ConvertArnToSingleResource arn svc region = Inr (new ! i)"
    by blast
  have "\<exists>arn svc. ResourceARN ((resource # rest) ! i) = Some arn \<and> ServiceNameFromARN arn = Inr svc \<and>
        ConvertArnToSingleResource arn svc region = Inr ((res # new) ! i)"
    if "i < length (resource # rest)" for i
    using that arn svc res new(3) by (cases i) auto
  with new(1,2) show ?case
    by (intro exI [of _ "res # new"]) simp
qed

lemma convert_resources_populated:
  assumes "convert_resources region rs collected = Inr out"
  shows "\<exists>new. out = collected @ new \<and> (\<forall>z\<in>set new. Region z = Some region \<and> Service z \<noteq> None)"
proof -
  from convert_resources_spec [OF assms] obtain new where
    new: "out = collected @ new" "length new = length rs"
      "\<forall>i<length rs. \<exists>arn svc. ResourceARN (rs ! i) = Some arn \<and> ServiceNameFromARN arn = Inr svc \<and>
        ConvertArnToSingleResource arn svc region = Inr (new ! i)"
    by blast
  have "Region z = Some region \<and> Service z \<noteq> None" if "z \<in> set new" for z
  proof -
    from that obtain i where "i < length new" "new ! i = z"
      by (auto simp: in_set_conv_nth)
    with new(2,3) obtain arn svc where "ConvertArnToSingleResource arn svc region = Inr z"
      by auto
    then show ?thesis
      by (auto dest: Convert_populated)
  qed
  with new(1) show ?thesis
    by blast
qed

lemma call_GetResources_resources:
  "call_GetResources r inp st = (out, st2) \<Longrightarrow> resources st2 = resources st"
  by (auto simp: call_GetResources_def split: prod.splits)

lemma call_GetResources_requests:
  "call_GetResources r inp st = (out, st2) \<Longrightarrow> requests st2 = requests st @ [inp]"
  by (auto simp: call_GetResources_def split: prod.splits)

lemma main_loop_Suc_Inr:
  assumes run: "main_loop (Suc fuel) r region st = Some (Inr st')"
  obtains st1 st2 page rs tok where
    "st1 = (if paginationToken st = '''' then snd (call_GetResources r
              \<lparr>ResourcesPerPage = Some 50, PaginationToken_in = None\<rparr> st) else st)"
    "call_GetResources r
       (if paginationToken st = '''' then \<lparr>ResourcesPerPage = Some 50, PaginationToken_in = None\<rparr>
        else \<lparr>ResourcesPerPage = Some 50, PaginationToken_in = Some (paginationToken st)\<rparr>) st1 =
     (Some page, st2)"
    "convert_resources region (ResourceTagMappingList page) (resources st2) = Inr rs"
    "PaginationToken_out page = Some tok"
    "tok = '''' \<Longrightarrow> st' = st2\<lparr>resources := rs, paginationToken := tok\<rparr>"
    "tok \<noteq> '''' \<Longrightarrow>
       main_loop fuel r region (st2\<lparr>resources := rs, paginationToken := tok\<rparr>) = Some (Inr st')"
proof -
  define st1 where "st1 = (if paginationToken st = '''' then snd (call_GetResources r
              \<lparr>ResourcesPerPage = Some 50, PaginationToken_in = None\<rparr> st) else st)"
  define inp where "inp =
       (if paginationToken st = '''' then \<lparr>ResourcesPerPage = Some 50, PaginationToken_in = None\<rparr>
        else \<lparr>ResourcesPerPage = Some 50, PaginationToken_in = Some (paginationToken st)\<rparr>)"
  obtain out st2 where call: "call_GetResources r inp st1 = (out, st2)"
    by (cases "call_GetResources r inp st1")
  have step: "main_loop (Suc fuel) r region st =
      (case call_GetResources r inp st1 of
         (None, st2) \<Rightarrow> Some (Inl (Panic NilPointerDereference))
       | (Some out, st2) \<Rightarrow>
           (case convert_resources region (ResourceTagMappingList out) (resources st2) of
              Inl e \<Rightarrow> Some (Inl e)
            | Inr rs \<Rightarrow>
                (case PaginationToken_out out of
                   None \<Rightarrow> Some (Inl (Panic NilPointerDereference))
                 | Some tok \<Rightarrow>
                     if tok = '''' then Some (Inr (st2\<lparr>resources := rs, paginationToken := tok\<rparr>))
                     else main_loop fuel r region
                            (st2\<lparr>resources := rs, paginationToken := tok\<rparr>))))"
    by (simp add: Let_def st1_def inp_def)
  from run obtain page rs tok where
    "out = Some page"
    "convert_resources region (ResourceTagMappingList page) (resources st2) = Inr rs"
    "PaginationToken_out page = Some tok"
    "tok = '''' \<Longrightarrow> st' = st2\<lparr>resources := rs, paginationToken := tok\<rparr>"
    "tok \<noteq> '''' \<Longrightarrow>
       main_loop fuel r region (st2\<lparr>resources := rs, paginationToken := tok\<rparr>) = Some (Inr st')"
    unfolding step call by (auto split: option.splits sum.splits if_splits)
  with call show thesis
    using that [of st1 page st2 rs tok] by (simp add: st1_def inp_def)
qed

lemma main_loop_extends:
  "main_loop fuel r region st = Some (Inr st') \<Longrightarrow>
   \<exists>new. resources st' = resources st @ new \<and> (\<forall>z\<in>set new. Region z = Some region \<and> Service z \<noteq> None)"
proof (induction fuel arbitrary: st)
  case 0
  then show ?case by simp
next
  case (Suc fuel)
  from Suc.prems obtain st1 st2 page rs tok where
    st1: "st1 = (if paginationToken st = '''' then snd (call_GetResources r
              \<lparr>ResourcesPerPage = Some 50, PaginationToken_in = None\<rparr> st) else st)" and
    call: "call_GetResources r
       (if paginationToken st = '''' then \<lparr>ResourcesPerPage = Some 50, PaginationToken_in = None\<rparr>
        else \<lparr>ResourcesPerPage = Some 50, PaginationToken_in = Some (paginationToken st)\<rparr>) st1 =
     (Some page, st2)" and
    rs: "convert_resources region (ResourceTagMappingList page) (resources st2) = Inr rs" and
    stop: "tok = '''' \<Longrightarrow> st' = st2\<lparr>resources := rs, paginationToken := tok\<rparr>" and
    continue: "tok \<noteq> '''' \<Longrightarrow>
       main_loop fuel r region (st2\<lparr>resources := rs, paginationToken := tok\<rparr>) = Some (Inr st')"
    by (rule main_loop_Suc_Inr) blast
  have "resources st1 = resources st"
    unfolding st1
    by (cases "call_GetResources r \<lparr>ResourcesPerPage = Some 50, PaginationToken_in = None\<rparr> st")
      (auto dest: call_GetResources_resources)
  with call have r2: "resources st2 = resources st"
    by (auto dest: call_GetResources_resources)
  from convert_resources_populated [OF rs] r2 obtain new1 where
    new1: "rs = resources st @ new1" "\<forall>z\<in>set new1. Region z = Some region \<and> Service z \<noteq> None"
    by auto
  show ?case
  proof (cases "tok = ''''")
    case True
    with stop new1 show ?thesis
      by auto
  next
    case False
    from Suc.IH [OF continue [OF False]] obtain new2 where
      "resources st' = rs @ new2" "\<forall>z\<in>set new2. Region z = Some region \<and> Service z \<noteq> None"
      by auto
    with new1 show ?thesis
      by (intro exI [of _ "new1 @ new2"]) auto
  qed
qed

lemma main_loop_requests_grow:
  "main_loop fuel r region st = Some (Inr st') \<Longrightarrow> \<exists>more. requests st' = requests st @ more"
proof (induction fuel arbitrary: st)
  case 0
  then show ?case by simp
next
  case (Suc fuel)
  from Suc.prems obtain st1 st2 page rs tok where
    st1: "st1 = (if paginationToken st = '''' then snd (call_GetResources r
              \<lparr>ResourcesPerPage = Some 50, PaginationToken_in = None\<rparr> st) else st)" and
    call: "call_GetResources r
       (if paginationToken st = '''' then \<lparr>ResourcesPerPage = Some 50, PaginationToken_in = None\<rparr>
        else \<lparr>ResourcesPerPage = Some 50, PaginationToken_in = Some (paginationToken st)\<rparr>) st1 =
     (Some page, st2)" and
    stop: "tok = '''' \<Longrightarrow> st' = st2\<lparr>resources := rs, paginationToken := tok\<rparr>" and
    continue: "tok \<noteq> '''' \<Longrightarrow>
       main_loop fuel r region (st2\<lparr>resources := rs, paginationToken := tok\<rparr>) = Some (Inr st')"
    by (rule main_loop_Suc_Inr) blast
  have "\<exists>more. requests st1 = requests st @ more"
    unfolding st1
    by (cases "call_GetResources r \<lparr>ResourcesPerPage = Some 50, PaginationToken_in = None\<rparr> st")
      (auto dest: call_GetResources_requests)
  with call obtain more1 where r2: "requests st2 = requests st @ more1"
    by (auto dest: call_GetResources_requests)
  show ?case
  proof (cases "tok = ''''")
    case True
    with stop r2 show ?thesis
      by auto
  next
    case False
    from Suc.IH [OF continue [OF False]] r2 show ?thesis
      by auto
  qed
qed

lemma foldl_rows: "foldl (\<lambda>data r. data @ [f r]) acc rs = acc @ map f rs"
  by (induction rs arbitrary: acc) auto



section \<open>The claims\<close>

subsection \<open>C1: service identifier and short ARN of a well-formed ARN\<close>

text \<open>
  C1 says that an ARN \<^verbatim>\<open>arn:aws:<svc>:<region>:<acct>:<rest...>\<close> of at least six segments
  is decomposed into the service \<^verbatim>\<open><svc>\<close> and the short ARN made of the segments from
  index 6 on, joined with \<^verbatim>\<open>/\<close>. \<^verbatim>\<open>ShortArn\<close> slices at \<^verbatim>\<open>[5:]\<close>: it drops five
  segments, so that the resource part of a six-segment ARN is kept. At the ARN of an EC2
  instance the short ARN is \<^verbatim>\<open>instance/i-0123abcd\<close>, where the claim asks for the empty
  string.
\<close>

theorem short_arn_index_6_counterexample:
  "ShortArn ''arn:aws:ec2:us-east-1:123456789012:instance/i-0123abcd'' \<noteq>
   Inr (strings_Join
          (drop 6 (strings_Split ''arn:aws:ec2:us-east-1:123456789012:instance/i-0123abcd'' '':''))
          ''/'')"
  by (simp add: ShortArn_def strings_Split.simps strings_HasPrefix_def)

text \<open>
  C1 as amended: when the colon-delimited segments of the ARN are \<^verbatim>\<open>arn\<close>, \<^verbatim>\<open>aws\<close>,
  \<open>svc\<close>, \<open>region\<close>, \<open>acct\<close> and then \<open>rest\<close>, the service is \<open>svc\<close> and the short ARN is
  \<open>rest\<close> joined with \<^verbatim>\<open>/\<close>, that is the segments from index 5 on. Since
  \<^verbatim>\<open>ServiceNameFromARN\<close> deletes \<^verbatim>\<open>arn:aws:\<close> wherever it occurs, the service part needs
  that the text behind the leading \<^verbatim>\<open>arn:aws:\<close> does not start a second occurrence
  inside \<open>svc\<close>: \<open>svc\<close> must not end in \<^verbatim>\<open>arn\<close> while \<open>region\<close> is \<^verbatim>\<open>aws\<close>.
\<close>

theorem arn_decomposition:
  assumes seg: "strings_Split arn '':'' = ''arn'' # ''aws'' # svc # region # acct # rest"
    and odd: "\<not> (suffix ''arn'' svc \<and> region = ''aws'')"
  shows "ServiceNameFromARN arn = Inr svc \<and> ShortArn arn = Inr (strings_Join rest ''/'')"
proof -
  have "strings_Join (strings_Split arn '':'') '':'' = arn"
    by (rule Join_Split) simp
  then have arn: "arn = ''arn:aws:'' @ svc @ CHR '':'' # region @ CHR '':'' # strings_Join (acct # rest) '':''"
    unfolding seg by simp
  have "svc \<in> set (strings_Split arn '':'')" and "region \<in> set (strings_Split arn '':'')"
    unfolding seg by simp_all
  then have "CHR '':'' \<notin> set svc" and "CHR '':'' \<notin> set region"
    by (auto dest: Split_single_set)
  then have "ServiceNameFromARN arn = Inr svc"
    using odd by (subst arn) (rule ServiceNameFromARN_of_prefixed)
  moreover have "ShortArn arn = Inr (strings_Join rest ''/'')"
    by (simp add: ShortArn_def seg)
  ultimately show ?thesis
    by simp
qed

theorem arn_decomposition_witness:
  "ServiceNameFromARN ''arn:aws:ecs:eu-west-1:123456789012:service:prod:web'' = Inr ''ecs'' \<and>
   ShortArn ''arn:aws:ecs:eu-west-1:123456789012:service:prod:web'' = Inr ''service/prod/web''"
proof -
  have seg: "strings_Split ''arn:aws:ecs:eu-west-1:123456789012:service:prod:web'' '':'' =
      ''arn'' # ''aws'' # ''ecs'' # ''eu-west-1'' # ''123456789012'' # [''service'', ''prod'', ''web'']"
    by (simp add: strings_Split.simps strings_HasPrefix_def)
  have odd: "\<not> (suffix ''arn'' ''ecs'' \<and> ''eu-west-1'' = ''aws'')"
    by simp
  show ?thesis
    using arn_decomposition [OF seg odd] by simp
qed

text \<open>
  The side condition cannot be dropped: with service \<^verbatim>\<open>arn\<close> and region \<^verbatim>\<open>aws\<close> the
  deletion eats both, and the account number comes out as the service.
\<close>

lemma ServiceNameFromARN_second_occurrence:
  "strings_Split ''arn:aws:arn:aws:123456789012:x'' '':'' =
     [''arn'', ''aws'', ''arn'', ''aws'', ''123456789012'', ''x''] \<and>
   ServiceNameFromARN ''arn:aws:arn:aws:123456789012:x'' = Inr ''123456789012''"
  by (simp add: ServiceNameFromARN_def strings_Split.simps strings_Replace.simps
      strings_HasPrefix_def)

subsection \<open>C2: three pages\<close>

text \<open>
  The run of the loop against the provider that looks pages up by the token of the
  request, written out: the state it ends in.
\<close>

lemma main_loop_provider_by_token:
  "main_loop 3 provider_by_token ''eu-west-1''
     \<lparr>client = (), paginationToken = '''', resources = [], requests = [], printed = []\<rparr> =
   Some (Inr \<lparr>client = (), paginationToken = '''',
     resources =
       [\<lparr>Region = Some ''eu-west-1'', Service = Some ''ec2'', Product = Some ''instance'',
         Details = None, ID = Some ''i-0123abcd'', ARN = Some ''instance/i-0123abcd''\<rparr>,
        \<lparr>Region = Some ''eu-west-1'', Service = Some ''s3'', Product = None,
         Details = None, ID = Some ''my-bucket'', ARN = Some ''my-bucket''\<rparr>,
        \<lparr>Region = Some ''eu-west-1'', Service = Some ''ecs'', Product = Some ''cluster'',
         Details = None, ID = Some ''prod'', ARN = Some ''cluster/prod''\<rparr>,
        \<lparr>Region = Some ''eu-west-1'', Service = Some ''sns'', Product = None,
         Details = None, ID = Some ''alerts'', ARN = Some ''alerts''\<rparr>],
     requests =
       [\<lparr>ResourcesPerPage = Some 50, PaginationToken_in = None\<rparr>,
        \<lparr>ResourcesPerPage = Some 50, PaginationToken_in = None\<rparr>,
        \<lparr>ResourcesPerPage = Some 50, PaginationToken_in = Some ''t1''\<rparr>,
        \<lparr>ResourcesPerPage = Some 50, PaginationToken_in = Some ''t2''\<rparr>],
     printed = []\<rparr>)"
  by (simp add: eval_nat_numeral call_GetResources_def provider_by_token_def page1_def page2_def
      page3_def ServiceNameFromARN_def ConvertArnToSingleResource_def ShortArn_def
      awsEC2_ConvertToResource_def awsECS_ConvertToResource_def awsGeneric_ConverToResource_def
      strings_Split.simps strings_Replace.simps strings_HasPrefix_def)

text \<open>
  C2 says that three pages with the tokens \<^verbatim>\<open>"t1"\<close>, \<^verbatim>\<open>"t2"\<close>, \<^verbatim>\<open>""\<close> cost exactly three
  requests. In the round that starts with the empty token \<^verbatim>\<open>main\<close> calls
  \<^verbatim>\<open>GetResources\<close> inside the \<^verbatim>\<open>if\<close> and once more behind it, and drops the first answer.
  Against the provider that looks pages up by token the run ends with all the records of
  the three pages in order, and with four requests, the first two without a token.
\<close>

theorem three_pages_four_requests:
  "map_option (map_sum id (\<lambda>(st, t). (map PaginationToken_in (requests st), length (resources st))))
     (main 3 [''awslist'', ''eu-west-1''] provider_by_token ()) =
   Some (Inr ([None, None, Some ''t1'', Some ''t2''], 4))"
  by (simp add: main_def main_loop_provider_by_token)

text \<open>
  Against the provider that hands out one page per request the count is three, but the
  page that answered the dropped request is lost: the records of the first page are not
  in the result.
\<close>

lemma main_loop_provider_in_sequence:
  "main_loop 3 provider_in_sequence ''eu-west-1''
     \<lparr>client = [page1, page2, page3], paginationToken = '''', resources = [], requests = [],
      printed = []\<rparr> =
   Some (Inr \<lparr>client = [], paginationToken = '''',
     resources =
       [\<lparr>Region = Some ''eu-west-1'', Service = Some ''ecs'', Product = Some ''cluster'',
         Details = None, ID = Some ''prod'', ARN = Some ''cluster/prod''\<rparr>,
        \<lparr>Region = Some ''eu-west-1'', Service = Some ''sns'', Product = None,
         Details = None, ID = Some ''alerts'', ARN = Some ''alerts''\<rparr>],
     requests =
       [\<lparr>ResourcesPerPage = Some 50, PaginationToken_in = None\<rparr>,
        \<lparr>ResourcesPerPage = Some 50, PaginationToken_in = None\<rparr>,
        \<lparr>ResourcesPerPage = Some 50, PaginationToken_in = Some ''t2''\<rparr>],
     printed = []\<rparr>)"
  by (simp add: eval_nat_numeral call_GetResources_def provider_in_sequence_def page1_def page2_def
      page3_def ServiceNameFromARN_def ConvertArnToSingleResource_def ShortArn_def
      awsEC2_ConvertToResource_def awsECS_ConvertToResource_def awsGeneric_ConverToResource_def
      strings_Split.simps strings_Replace.simps strings_HasPrefix_def)

text \<open>
  The doubled request does not depend on the provider: whenever a round starts with the
  empty token and the run ends, the round has sent the token-less request twice.
\<close>

lemma main_loop_first_round_requests:
  assumes empty: "paginationToken st = ''''" and run: "main_loop (Suc fuel) r region st = Some (Inr st')"
  shows "take 2 (drop (length (requests st)) (requests st')) =
     [\<lparr>ResourcesPerPage = Some 50, PaginationToken_in = None\<rparr>,
      \<lparr>ResourcesPerPage = Some 50, PaginationToken_in = None\<rparr>]"
proof -
  let ?q = "\<lparr>ResourcesPerPage = Some 50, PaginationToken_in = None\<rparr>"
  from run obtain st1 st2 page rs tok where
    st1: "st1 = (if paginationToken st = '''' then snd (call_GetResources r ?q st) else st)" and
    call: "call_GetResources r
       (if paginationToken st = '''' then ?q
        else \<lparr>ResourcesPerPage = Some 50, PaginationToken_in = Some (paginationToken st)\<rparr>) st1 =
     (Some page, st2)" and
    stop: "tok = '''' \<Longrightarrow> st' = st2\<lparr>resources := rs, paginationToken := tok\<rparr>" and
    continue: "tok \<noteq> '''' \<Longrightarrow>
       main_loop fuel r region (st2\<lparr>resources := rs, paginationToken := tok\<rparr>) = Some (Inr st')"
    by (rule main_loop_Suc_Inr) blast
  have "requests st1 = requests st @ [?q]"
    unfolding st1 using empty
    by (cases "call_GetResources r ?q st") (auto dest: call_GetResources_requests)
  with call empty have r2: "requests st2 = requests st @ [?q, ?q]"
    by (auto dest: call_GetResources_requests)
  have "\<exists>more. requests st' = requests st2 @ more"
  proof (cases "tok = ''''")
    case True
    with stop show ?thesis
      by simp
  next
    case False
    from main_loop_requests_grow [OF continue [OF False]] show ?thesis
      by simp
  qed
  with r2 show ?thesis
    by auto
qed


subsection \<open>C3: an ARN of too few segments\<close>

text \<open>
  C3 says that an ARN of fewer than six colon-delimited segments is turned down with an
  \<^verbatim>\<open>InvalidArnFormat\<close> error and gives no record. The source has no such check: the
  slice \<^verbatim>\<open>slicedArn[5:]\<close> is well defined from five segments on. An ARN of exactly five
  segments is accepted, gets the empty short ARN, and under the generic strategy a record.
\<close>

theorem five_segments_counterexample:
  "length (strings_Split ''arn:aws:s3:us-east-1:123456789012'' '':'') < 6 \<and>
   ConvertArnToSingleResource ''arn:aws:s3:us-east-1:123456789012'' ''s3'' ''us-east-1'' =
     Inr \<lparr>Region = Some ''us-east-1'', Service = Some ''s3'', Product = None, Details = None,
          ID = Some '''', ARN = Some ''''\<rparr>"
  by (simp add: ConvertArnToSingleResource_def ShortArn_def awsGeneric_ConverToResource_def
      strings_Split.simps strings_HasPrefix_def)

text \<open>
  C3 as amended: an ARN of fewer than five colon-delimited segments gives no record. The
  slice panics (slice bounds out of range), in \<^verbatim>\<open>ShortArn\<close>, hence in
  \<^verbatim>\<open>ConvertArnToSingleResource\<close> whatever the service, and the panic ends the loop over
  the page that holds such an ARN, whatever was collected before and whatever follows.
  For an ARN of exactly five segments \<^verbatim>\<open>ShortArn\<close> returns the empty short ARN; the
  classification then returns a record with the empty identifier when the service is
  neither \<^verbatim>\<open>ec2\<close> nor \<^verbatim>\<open>ecs\<close>, and panics (index out of range) when it is one of the two.
\<close>

theorem fewer_than_six_segments:
  "(length (strings_Split arn '':'') < 5 \<longrightarrow>
      ShortArn arn = Inl (Panic SliceBoundsOutOfRange) \<and>
      ConvertArnToSingleResource arn svc rgn = Inl (Panic SliceBoundsOutOfRange) \<and>
      convert_resources region (\<lparr>ResourceARN = Some arn\<rparr> # rest) collected =
        Inl (Panic SliceBoundsOutOfRange)) \<and>
   (length (strings_Split arn '':'') = 5 \<longrightarrow>
      ShortArn arn = Inr '''' \<and>
      ConvertArnToSingleResource arn svc rgn =
        (if svc = ''ec2'' \<or> svc = ''ecs'' then Inl (Panic IndexOutOfRange)
         else Inr \<lparr>Region = Some rgn, Service = Some svc, Product = None, Details = None,
                   ID = Some '''', ARN = Some ''''\<rparr>))"
proof -
  have few: "ShortArn arn = Inl (Panic SliceBoundsOutOfRange) \<and>
      ConvertArnToSingleResource arn svc rgn = Inl (Panic SliceBoundsOutOfRange) \<and>
      convert_resources region (\<lparr>ResourceARN = Some arn\<rparr> # rest) collected =
        Inl (Panic SliceBoundsOutOfRange)"
    if "length (strings_Split arn '':'') < 5"
  proof -
    have short: "ShortArn arn = Inl (Panic SliceBoundsOutOfRange)"
      using that by (simp add: ShortArn_def)
    then have conv: "ConvertArnToSingleResource arn s r = Inl (Panic SliceBoundsOutOfRange)" for s r
      by (simp add: ConvertArnToSingleResource_def)
    obtain s where "ServiceNameFromARN arn = Inr s"
      using ServiceNameFromARN_total by blast
    with conv have "convert_resources region (\<lparr>ResourceARN = Some arn\<rparr> # rest) collected =
        Inl (Panic SliceBoundsOutOfRange)"
      by simp
    with short conv show ?thesis
      by simp
  qed
  have five: "ShortArn arn = Inr '''' \<and>
      ConvertArnToSingleResource arn svc rgn =
        (if svc = ''ec2'' \<or> svc = ''ecs'' then Inl (Panic IndexOutOfRange)
         else Inr \<lparr>Region = Some rgn, Service = Some svc, Product = None, Details = None,
                   ID = Some '''', ARN = Some ''''\<rparr>)"
    if "length (strings_Split arn '':'') = 5"
  proof -
    have short: "ShortArn arn = Inr ''''"
      using that by (simp add: ShortArn_def)
    have "strings_Split '''' ''/'' = ['''']"
      by (simp add: Split_single_notin)
    with short show ?thesis
      by (simp add: ConvertArnToSingleResource_def awsEC2_ConvertToResource_def
          awsECS_ConvertToResource_def awsGeneric_ConverToResource_def)
  qed
  from few five show ?thesis
    by blast
qed

theorem fewer_than_six_segments_witness:
  "length (strings_Split ''arn:aws:s3:my-bucket'' '':'') < 5 \<and>
   ShortArn ''arn:aws:s3:my-bucket'' = Inl (Panic SliceBoundsOutOfRange) \<and>
   ConvertArnToSingleResource ''arn:aws:s3:my-bucket'' ''s3'' ''us-east-1'' =
     Inl (Panic SliceBoundsOutOfRange) \<and>
   convert_resources ''us-east-1'' [\<lparr>ResourceARN = Some ''arn:aws:s3:my-bucket''\<rparr>] [] =
     Inl (Panic SliceBoundsOutOfRange) \<and>
   length (strings_Split ''arn:aws:ec2:us-east-1:123456789012'' '':'') = 5 \<and>
   ShortArn ''arn:aws:ec2:us-east-1:123456789012'' = Inr '''' \<and>
   ConvertArnToSingleResource ''arn:aws:ec2:us-east-1:123456789012'' ''ec2'' ''us-east-1'' =
     Inl (Panic IndexOutOfRange) \<and>
   ConvertArnToSingleResource ''arn:aws:ec2:us-east-1:123456789012'' ''sqs'' ''us-east-1'' =
     Inr \<lparr>Region = Some ''us-east-1'', Service = Some ''sqs'', Product = None, Details = None,
          ID = Some '''', ARN = Some ''''\<rparr>"
proof -
  have few: "length (strings_Split ''arn:aws:s3:my-bucket'' '':'') < 5"
    by (simp add: strings_Split.simps strings_HasPrefix_def)
  have five: "length (strings_Split ''arn:aws:ec2:us-east-1:123456789012'' '':'') = 5"
    by (simp add: strings_Split.simps strings_HasPrefix_def)
  from few five
    fewer_than_six_segments
      [of "''arn:aws:s3:my-bucket''" "''s3''" "''us-east-1''" "''us-east-1''" "[]" "[]"]
    fewer_than_six_segments [of "''arn:aws:ec2:us-east-1:123456789012''" "''ec2''" "''us-east-1''"]
    fewer_than_six_segments [of "''arn:aws:ec2:us-east-1:123456789012''" "''sqs''" "''us-east-1''"]
  show ?thesis
    by simp
qed

subsection \<open>C4: a resource path of one segment\<close>

text \<open>
  C4 says that the \<^verbatim>\<open>ec2\<close> and \<^verbatim>\<open>ecs\<close> strategies answer a short ARN of fewer than two
  \<^verbatim>\<open>/\<close>-separated segments with a \<^verbatim>\<open>MalformedResourcePath\<close> error. The strategies have no
  error to return: they index \<^verbatim>\<open>s[1]\<close> unguarded, and what ends the call is the panic of
  the Go run time.
\<close>

theorem single_segment_counterexample:
  "awsEC2_ConvertToResource ''instance'' ''ec2'' ''us-east-1'' \<noteq> Inl (Failed MalformedResourcePath)"
  by (simp add: awsEC2_ConvertToResource_def strings_Split.simps strings_HasPrefix_def)

text \<open>
  C4 as amended: for a short ARN of fewer than two \<^verbatim>\<open>/\<close>-separated segments the \<^verbatim>\<open>ec2\<close>
  strategy produces no record and panics (index out of range); the same holds for the
  \<^verbatim>\<open>ecs\<close> strategy.
\<close>

theorem single_segment_panics:
  assumes "length (strings_Split shortArn ''/'') < 2"
  shows "awsEC2_ConvertToResource shortArn svc rgn = Inl (Panic IndexOutOfRange) \<and>
    awsECS_ConvertToResource shortArn svc rgn = Inl (Panic IndexOutOfRange)"
  using assms
  by (auto simp: awsEC2_ConvertToResource_def awsECS_ConvertToResource_def split: list.splits)

theorem single_segment_panics_witness:
  "length (strings_Split ''instance'' ''/'') < 2 \<and>
   awsEC2_ConvertToResource ''instance'' ''ec2'' ''us-east-1'' = Inl (Panic IndexOutOfRange) \<and>
   awsECS_ConvertToResource ''instance'' ''ec2'' ''us-east-1'' = Inl (Panic IndexOutOfRange)"
proof -
  have one: "length (strings_Split ''instance'' ''/'') < 2"
    by (simp add: strings_Split.simps strings_HasPrefix_def)
  show ?thesis
    using one single_segment_panics [OF one, of "''ec2''" "''us-east-1''"] by simp
qed

subsection \<open>C5: product and identifier under the \<^verbatim>\<open>ec2\<close> and \<^verbatim>\<open>ecs\<close> strategies\<close>

text \<open>
  C5: for a short ARN of at least two \<^verbatim>\<open>/\<close>-separated segments both strategies return a
  record whose product is the first segment and whose identifier is the second; region,
  service and short ARN are passed on. At \<^verbatim>\<open>instance/i-0123abcd\<close> the product is
  \<^verbatim>\<open>instance\<close> and the identifier \<^verbatim>\<open>i-0123abcd\<close>.
\<close>

theorem ec2_ecs_product_and_identifier:
  assumes "2 \<le> length (strings_Split shortArn ''/'')"
  shows "awsEC2_ConvertToResource shortArn svc rgn =
      Inr \<lparr>Region = Some rgn, Service = Some svc,
           Product = Some (strings_Split shortArn ''/'' ! 0), Details = None,
           ID = Some (strings_Split shortArn ''/'' ! 1), ARN = Some shortArn\<rparr> \<and>
    awsECS_ConvertToResource shortArn svc rgn =
      Inr \<lparr>Region = Some rgn, Service = Some svc,
           Product = Some (strings_Split shortArn ''/'' ! 0), Details = None,
           ID = Some (strings_Split shortArn ''/'' ! 1), ARN = Some shortArn\<rparr>"
proof -
  from assms obtain s0 s1 more where "strings_Split shortArn ''/'' = s0 # s1 # more"
    by (auto simp: numeral_2_eq_2 Suc_le_length_iff)
  then show ?thesis
    by (simp add: awsEC2_ConvertToResource_def awsECS_ConvertToResource_def)
qed

theorem ec2_ecs_product_and_identifier_witness:
  "2 \<le> length (strings_Split ''instance/i-0123abcd'' ''/'') \<and>
   awsEC2_ConvertToResource ''instance/i-0123abcd'' ''ec2'' ''us-east-1'' =
     Inr \<lparr>Region = Some ''us-east-1'', Service = Some ''ec2'', Product = Some ''instance'',
          Details = None, ID = Some ''i-0123abcd'', ARN = Some ''instance/i-0123abcd''\<rparr> \<and>
   awsECS_ConvertToResource ''instance/i-0123abcd'' ''ec2'' ''us-east-1'' =
     Inr \<lparr>Region = Some ''us-east-1'', Service = Some ''ec2'', Product = Some ''instance'',
          Details = None, ID = Some ''i-0123abcd'', ARN = Some ''instance/i-0123abcd''\<rparr>"
proof -
  have seg: "strings_Split ''instance/i-0123abcd'' ''/'' = [''instance'', ''i-0123abcd'']"
    by (simp add: strings_Split.simps strings_HasPrefix_def)
  then have two: "2 \<le> length (strings_Split ''instance/i-0123abcd'' ''/'')"
    by simp
  show ?thesis
    using two ec2_ecs_product_and_identifier [OF two, of "''ec2''" "''us-east-1''"]
    by (simp add: seg)
qed

subsection \<open>C6: every other service goes to the generic strategy\<close>

text \<open>
  C6: for a service identifier other than \<^verbatim>\<open>ec2\<close> and \<^verbatim>\<open>ecs\<close> the dispatch calls the
  generic strategy on the short ARN, and the generic strategy returns a record whose
  identifier is the whole short ARN and whose product is unset. For \<^verbatim>\<open>s3\<close> and the short
  ARN \<^verbatim>\<open>my-bucket\<close> the identifier is \<^verbatim>\<open>my-bucket\<close>.
\<close>

theorem other_services_generic:
  assumes "svc \<noteq> ''ec2''" and "svc \<noteq> ''ecs''"
  shows "ConvertArnToSingleResource arn svc rgn =
      (case ShortArn arn of
         Inl e \<Rightarrow> Inl e
       | Inr s \<Rightarrow> Inr (awsGeneric_ConverToResource s svc rgn)) \<and>
    ID (awsGeneric_ConverToResource shortArn svc rgn) = Some shortArn \<and>
    Product (awsGeneric_ConverToResource shortArn svc rgn) = None"
  using assms
  by (simp add: ConvertArnToSingleResource_def awsGeneric_ConverToResource_def split: sum.splits)

theorem other_services_generic_witness:
  "''s3'' \<noteq> ''ec2'' \<and> ''s3'' \<noteq> ''ecs'' \<and>
   ConvertArnToSingleResource ''arn:aws:s3:::my-bucket'' ''s3'' ''us-east-1'' =
     Inr (awsGeneric_ConverToResource ''my-bucket'' ''s3'' ''us-east-1'') \<and>
   ID (awsGeneric_ConverToResource ''my-bucket'' ''s3'' ''us-east-1'') = Some ''my-bucket'' \<and>
   Product (awsGeneric_ConverToResource ''my-bucket'' ''s3'' ''us-east-1'') = None"
proof -
  have 1: "''s3'' \<noteq> ''ec2''" and 2: "''s3'' \<noteq> ''ecs''"
    by simp_all
  have short: "ShortArn ''arn:aws:s3:::my-bucket'' = Inr ''my-bucket''"
    by (simp add: ShortArn_def strings_Split.simps strings_HasPrefix_def)
  show ?thesis
    using other_services_generic [OF 1 2, of "''arn:aws:s3:::my-bucket''" "''us-east-1''" "''my-bucket''"]
    by (simp add: short)
qed


subsection \<open>C7: region and service are set, and a collected record stays as it is\<close>

text \<open>
  C7: every record that one of the three strategies returns has its region and its
  service set, to the values the strategy was given. In a run of the loop of \<^verbatim>\<open>main\<close>
  that ends, the records collected before are still there, unchanged and in place (the loop
  only appends), and every record added has the region of the run and a service.
  Printing returns a table and no records, so it cannot change one.
\<close>

theorem records_populated_and_kept:
  "Region (awsGeneric_ConverToResource shortArn svc rgn) = Some rgn \<and>
   Service (awsGeneric_ConverToResource shortArn svc rgn) = Some svc \<and>
   (awsEC2_ConvertToResource shortArn svc rgn = Inr x \<longrightarrow>
      Region x = Some rgn \<and> Service x = Some svc) \<and>
   (awsECS_ConvertToResource shortArn svc rgn = Inr y \<longrightarrow>
      Region y = Some rgn \<and> Service y = Some svc) \<and>
   (main_loop fuel r region st = Some (Inr st') \<longrightarrow>
      take (length (resources st)) (resources st') = resources st \<and>
      (\<forall>z\<in>set (drop (length (resources st)) (resources st')).
         Region z = Some region \<and> Service z \<noteq> None))"
proof -
  have generic: "Region (awsGeneric_ConverToResource shortArn svc rgn) = Some rgn \<and>
      Service (awsGeneric_ConverToResource shortArn svc rgn) = Some svc"
    by (simp add: awsGeneric_ConverToResource_def)
  have ec2: "Region x = Some rgn \<and> Service x = Some svc"
    if "awsEC2_ConvertToResource shortArn svc rgn = Inr x"
    using that by (auto simp: awsEC2_ConvertToResource_def split: list.splits)
  have ecs: "Region y = Some rgn \<and> Service y = Some svc"
    if "awsECS_ConvertToResource shortArn svc rgn = Inr y"
    using that by (auto simp: awsECS_ConvertToResource_def split: list.splits)
  have loop: "take (length (resources st)) (resources st') = resources st \<and>
      (\<forall>z\<in>set (drop (length (resources st)) (resources st')).
         Region z = Some region \<and> Service z \<noteq> None)"
    if "main_loop fuel r region st = Some (Inr st')"
    using main_loop_extends [OF that] by auto
  from generic ec2 ecs loop show ?thesis
    by blast
qed

theorem records_populated_and_kept_witness:
  "awsEC2_ConvertToResource ''instance/i-0123abcd'' ''ec2'' ''eu-west-1'' =
     Inr \<lparr>Region = Some ''eu-west-1'', Service = Some ''ec2'', Product = Some ''instance'',
          Details = None, ID = Some ''i-0123abcd'', ARN = Some ''instance/i-0123abcd''\<rparr> \<and>
   awsECS_ConvertToResource ''instance/i-0123abcd'' ''ec2'' ''eu-west-1'' =
     Inr \<lparr>Region = Some ''eu-west-1'', Service = Some ''ec2'', Product = Some ''instance'',
          Details = None, ID = Some ''i-0123abcd'', ARN = Some ''instance/i-0123abcd''\<rparr> \<and>
   main_loop 1 provider_in_sequence ''eu-west-1''
     \<lparr>client = [page1, page3], paginationToken = '''', resources = [], requests = [],
      printed = []\<rparr> =
   Some (Inr \<lparr>client = [], paginationToken = '''',
     resources =
       [\<lparr>Region = Some ''eu-west-1'', Service = Some ''sns'', Product = None,
         Details = None, ID = Some ''alerts'', ARN = Some ''alerts''\<rparr>],
     requests =
       [\<lparr>ResourcesPerPage = Some 50, PaginationToken_in = None\<rparr>,
        \<lparr>ResourcesPerPage = Some 50, PaginationToken_in = None\<rparr>],
     printed = []\<rparr>) \<and>
   Region (awsGeneric_ConverToResource ''alerts'' ''sns'' ''eu-west-1'') = Some ''eu-west-1'' \<and>
   Service (awsGeneric_ConverToResource ''alerts'' ''sns'' ''eu-west-1'') \<noteq> None"
proof -
  let ?x = "\<lparr>Region = Some ''eu-west-1'', Service = Some ''ec2'', Product = Some ''instance'',
          Details = None, ID = Some ''i-0123abcd'', ARN = Some ''instance/i-0123abcd''\<rparr>"
  let ?st = "\<lparr>client = [page1, page3], paginationToken = '''', resources = [], requests = [],
      printed = []\<rparr>"
  let ?st' = "\<lparr>client = [], paginationToken = '''',
     resources =
       [\<lparr>Region = Some ''eu-west-1'', Service = Some ''sns'', Product = None,
         Details = None, ID = Some ''alerts'', ARN = Some ''alerts''\<rparr>],
     requests =
       [\<lparr>ResourcesPerPage = Some 50, PaginationToken_in = None\<rparr>,
        \<lparr>ResourcesPerPage = Some 50, PaginationToken_in = None\<rparr>],
     printed = []\<rparr>"
  have ec2: "awsEC2_ConvertToResource ''instance/i-0123abcd'' ''ec2'' ''eu-west-1'' = Inr ?x"
    by (simp add: awsEC2_ConvertToResource_def strings_Split.simps strings_HasPrefix_def)
  have ecs: "awsECS_ConvertToResource ''instance/i-0123abcd'' ''ec2'' ''eu-west-1'' = Inr ?x"
    by (simp add: awsECS_ConvertToResource_def strings_Split.simps strings_HasPrefix_def)
  have run: "main_loop 1 provider_in_sequence ''eu-west-1'' ?st = Some (Inr ?st')"
    by (simp add: call_GetResources_def provider_in_sequence_def page1_def
      page3_def ServiceNameFromARN_def ConvertArnToSingleResource_def ShortArn_def
      awsGeneric_ConverToResource_def
      strings_Split.simps strings_Replace.simps strings_HasPrefix_def)
  show ?thesis
    using ec2 ecs run
      records_populated_and_kept [of "''instance/i-0123abcd''" "''ec2''" "''eu-west-1''" ?x ?x
        1 provider_in_sequence "''eu-west-1''" ?st ?st']
    by (simp add: awsGeneric_ConverToResource_def)
qed

subsection \<open>C8: the rows of the table\<close>

text \<open>
  C8: the table gets the header Region, Service, Product, ID and one row per record, in
  the order of the records; the cells of a row are the record's region, service, product
  and ID, each the empty string when the field is unset.
\<close>

theorem table_rows:
  "header (PrettyPrintResources rs) = [''Region'', ''Service'', ''Product'', ''ID''] \<and>
   length (rows (PrettyPrintResources rs)) = length rs \<and>
   rows (PrettyPrintResources rs) =
     map (\<lambda>r. [case Region r of None \<Rightarrow> '''' | Some v \<Rightarrow> v,
               case Service r of None \<Rightarrow> '''' | Some v \<Rightarrow> v,
               case Product r of None \<Rightarrow> '''' | Some v \<Rightarrow> v,
               case ID r of None \<Rightarrow> '''' | Some v \<Rightarrow> v]) rs"
  by (simp add: PrettyPrintResources_def foldl_rows PrettyPrintResources_row_def
      DerefNilPointerStrings_def)

subsection \<open>C9: the same ARN gives the same record\<close>

text \<open>
  C9: when the loop over a page ends, two resources of the page that carry the same ARN
  have got equal records, field by field, whatever was collected before them and
  wherever they stand in the page.
\<close>

theorem same_arn_same_record:
  assumes conv: "convert_resources region rs collected = Inr out"
    and i: "i < length rs" and j: "j < length rs"
    and same: "ResourceARN (rs ! i) = ResourceARN (rs ! j)"
  shows "out ! (length collected + i) = out ! (length collected + j)"
proof -
  from convert_resources_spec [OF conv] obtain new where
    new: "out = collected @ new" "length new = length rs"
      "\<forall>i<length rs. \<exists>arn svc. ResourceARN (rs ! i) = Some arn \<and> ServiceNameFromARN arn = Inr svc \<and>
        ConvertArnToSingleResource arn svc region = Inr (new ! i)"
    by blast
  from new(3) i obtain arn svc where
    a: "ResourceARN (rs ! i) = Some arn" "ServiceNameFromARN arn = Inr svc"
      "ConvertArnToSingleResource arn svc region = Inr (new ! i)"
    by blast
  from new(3) j obtain arn' svc' where
    b: "ResourceARN (rs ! j) = Some arn'" "ServiceNameFromARN arn' = Inr svc'"
      "ConvertArnToSingleResource arn' svc' region = Inr (new ! j)"
    by blast
  from a b same have "new ! i = new ! j"
    by simp
  with new(1) show ?thesis
    by simp
qed

theorem same_arn_same_record_witness:
  "convert_resources ''eu-west-1''
     [\<lparr>ResourceARN = Some ''arn:aws:sns:eu-west-1:111122223333:alerts''\<rparr>,
      \<lparr>ResourceARN = Some ''arn:aws:s3:::my-bucket''\<rparr>,
      \<lparr>ResourceARN = Some ''arn:aws:sns:eu-west-1:111122223333:alerts''\<rparr>] [] =
   Inr [awsGeneric_ConverToResource ''alerts'' ''sns'' ''eu-west-1'',
        awsGeneric_ConverToResource ''my-bucket'' ''s3'' ''eu-west-1'',
        awsGeneric_ConverToResource ''alerts'' ''sns'' ''eu-west-1''] \<and>
   [awsGeneric_ConverToResource ''alerts'' ''sns'' ''eu-west-1'',
    awsGeneric_ConverToResource ''my-bucket'' ''s3'' ''eu-west-1'',
    awsGeneric_ConverToResource ''alerts'' ''sns'' ''eu-west-1''] ! 0 =
   [awsGeneric_ConverToResource ''alerts'' ''sns'' ''eu-west-1'',
    awsGeneric_ConverToResource ''my-bucket'' ''s3'' ''eu-west-1'',
    awsGeneric_ConverToResource ''alerts'' ''sns'' ''eu-west-1''] ! 2"
proof -
  let ?rs = "[\<lparr>ResourceARN = Some ''arn:aws:sns:eu-west-1:111122223333:alerts''\<rparr>,
      \<lparr>ResourceARN = Some ''arn:aws:s3:::my-bucket''\<rparr>,
      \<lparr>ResourceARN = Some ''arn:aws:sns:eu-west-1:111122223333:alerts''\<rparr>]"
  let ?out = "[awsGeneric_ConverToResource ''alerts'' ''sns'' ''eu-west-1'',
        awsGeneric_ConverToResource ''my-bucket'' ''s3'' ''eu-west-1'',
        awsGeneric_ConverToResource ''alerts'' ''sns'' ''eu-west-1'']"
  have conv: "convert_resources ''eu-west-1'' ?rs [] = Inr ?out"
    by (simp add: ServiceNameFromARN_def ConvertArnToSingleResource_def ShortArn_def
      strings_Split.simps strings_Replace.simps strings_HasPrefix_def)
  have i: "0 < length ?rs" and j: "2 < length ?rs"
    and same: "ResourceARN (?rs ! 0) = ResourceARN (?rs ! 2)"
    by simp_all
  from conv same_arn_same_record [OF conv i j same] show ?thesis
    by simp
qed

subsection \<open>C10: an input without \<^verbatim>\<open>arn:aws:\<close>\<close>

text \<open>
  C10: \<^verbatim>\<open>ServiceNameFromARN\<close> does not check that its input starts with \<^verbatim>\<open>arn:aws:\<close>,
  and never fails. For every input the result is the text in front of the first colon
  of what is left when the pieces between the occurrences of \<^verbatim>\<open>arn:aws:\<close> are put
  together. Without the functions of the model: when the input is made of pieces with
  \<^verbatim>\<open>arn:aws:\<close> between them, no occurrence starting inside a piece and none lying in the
  last piece, every one of these occurrences is deleted, wherever it stands, and the
  result is read off the pieces put together. When \<^verbatim>\<open>arn:aws:\<close> does not occur in the
  input at all, the result is the text in front of the first colon of the input (the
  whole input when there is no colon); for an ARN of the partition \<^verbatim>\<open>aws-cn\<close> that is
  \<^verbatim>\<open>arn\<close>.
\<close>

theorem service_name_without_the_prefix:
  "ServiceNameFromARN s =
     Inr (takeWhile (\<lambda>c. c \<noteq> CHR '':'') (concat (strings_Split s ''arn:aws:''))) \<and>
   (pieces \<noteq> [] \<and> (\<forall>u\<in>set (butlast pieces). \<not> sublist ''arn:aws:'' (u @ ''arn:aws'')) \<and>
    \<not> sublist ''arn:aws:'' (last pieces) \<longrightarrow>
      ServiceNameFromARN (strings_Join pieces ''arn:aws:'') =
        Inr (takeWhile (\<lambda>c. c \<noteq> CHR '':'') (concat pieces))) \<and>
   (\<not> sublist ''arn:aws:'' s \<longrightarrow>
      ServiceNameFromARN s = Inr (takeWhile (\<lambda>c. c \<noteq> CHR '':'') s))"
proof -
  have first_word: "ServiceNameFromARN t = Inr (takeWhile (\<lambda>c. c \<noteq> CHR '':'') x)"
    if "strings_Replace t ''arn:aws:'' '''' (- 1) = x" for t x
    using that Split_single_hd [of x "CHR '':''"] Split_not_Nil [of "'':''" x]
    by (auto simp: ServiceNameFromARN_def split: list.split)
  have every: "ServiceNameFromARN s =
      Inr (takeWhile (\<lambda>c. c \<noteq> CHR '':'') (concat (strings_Split s ''arn:aws:'')))"
    by (rule first_word) (simp add: Replace_concat_Split)
  have removed: "ServiceNameFromARN (strings_Join ps ''arn:aws:'') =
      Inr (takeWhile (\<lambda>c. c \<noteq> CHR '':'') (concat ps))"
    if ps: "ps \<noteq> []" "\<forall>u\<in>set (butlast ps). \<not> sublist ''arn:aws:'' (u @ ''arn:aws'')"
      "\<not> sublist ''arn:aws:'' (last ps)" for ps
  proof -
    have "strings_Replace (strings_Join ps ''arn:aws:'') ''arn:aws:'' '''' (- 1) = strings_Join ps ''''"
      using ps by (intro Replace_Join) simp_all
    then have "strings_Replace (strings_Join ps ''arn:aws:'') ''arn:aws:'' '''' (- 1) = concat ps"
      by (simp add: Join_empty_separator)
    then show ?thesis
      by (rule first_word)
  qed
  have absent: "ServiceNameFromARN s = Inr (takeWhile (\<lambda>c. c \<noteq> CHR '':'') s)"
    if "\<not> sublist ''arn:aws:'' s"
    using that removed [of "[s]"] by simp
  from every removed [of pieces] absent show ?thesis
    by blast
qed

theorem service_name_without_the_prefix_witness:
  "\<not> sublist ''arn:aws:'' ''arn:aws-cn:ec2:cn-north-1:123456789012:instance/i-0123abcd'' \<and>
   ServiceNameFromARN ''arn:aws-cn:ec2:cn-north-1:123456789012:instance/i-0123abcd'' = Inr ''arn'' \<and>
   strings_Join [''e'', ''c'', ''2:eu-west-1''] ''arn:aws:'' = ''earn:aws:carn:aws:2:eu-west-1'' \<and>
   ServiceNameFromARN ''earn:aws:carn:aws:2:eu-west-1'' = Inr ''ec2''"
proof -
  have absent: "\<not> sublist ''arn:aws:'' ''arn:aws-cn:ec2:cn-north-1:123456789012:instance/i-0123abcd''"
    by (simp add: Index_None_iff [symmetric] strings_HasPrefix_def)
  have pieces: "[''e'', ''c'', ''2:eu-west-1''] \<noteq> [] \<and>
      (\<forall>u\<in>set (butlast [''e'', ''c'', ''2:eu-west-1'']). \<not> sublist ''arn:aws:'' (u @ ''arn:aws'')) \<and>
      \<not> sublist ''arn:aws:'' (last [''e'', ''c'', ''2:eu-west-1''])"
    by (simp add: Index_None_iff [symmetric] strings_HasPrefix_def)
  from absent pieces
    service_name_without_the_prefix
      [of "''arn:aws-cn:ec2:cn-north-1:123456789012:instance/i-0123abcd''"
        "[''e'', ''c'', ''2:eu-west-1'']", THEN conjunct2]
  show ?thesis
    by simp
qed

text \<open>
  The deletion is not tied to the front of the input: an occurrence in the middle goes
  as well, and what stood around it is read as one word.
\<close>

lemma ServiceNameFromARN_inner_occurrence:
  "ServiceNameFromARN ''xarn:aws:y:z'' = Inr ''xy''"
  by (simp add: ServiceNameFromARN_def strings_Split.simps strings_Replace.simps
      strings_HasPrefix_def)

end
